theory Spec2Isabelle
  imports Main "HOL-Library.Sublist"
begin

section \<open>MindFresh: the mood-driven recommendations page\<close>

text \<open>
  A shallow embedding of \<^verbatim>\<open>src/pages/Recommendations.tsx\<close>. The React component keeps
  its state in \<^verbatim>\<open>useState\<close> cells; here they are the fields of one record that every
  operation takes and returns. What the outside world answers (the Audius search, the
  YouTube relay, the Google Books search, the mood table) is a parameter of the operation
  that asks for it.
\<close>

subsection \<open>Data model\<close>

text \<open>
  \<^verbatim>\<open>interface Track\<close>, \<^verbatim>\<open>interface YouTubeVideo\<close> and \<^verbatim>\<open>interface Book\<close>, with their
  nested objects flattened into one record each. \<^verbatim>\<open>duration\<close> is a JavaScript number of
  seconds; the providers send whole seconds, so it is an \<^typ>\<open>int\<close> here.
\<close>

record Track =
  track_id :: string
  track_title :: string
  user_name :: string
  genre :: "string option"
  duration :: int

record YouTubeVideo =
  videoId :: string
  snippet_title :: string
  channelTitle :: string
  snippet_description :: string
  thumbnail_url :: string

record Book =
  book_id :: string
  volume_title :: string
  authors :: "string list option"
  description :: "string option"
  imageLinks_thumbnail :: "string option"
  publishedDate :: "string option"

text \<open>The object literal that \<^verbatim>\<open>getMoodBasedContent\<close> returns.\<close>

record QueryBundle =
  musicQuery :: string
  podcastQuery :: string
  bookQuery :: string

text \<open>The argument of \<^verbatim>\<open>toast(...)\<close>.\<close>

record Toast =
  toast_title :: string
  toast_description :: string
  toast_variant :: string

text \<open>
  The \<^verbatim>\<open>useState\<close> cells of the component (lines 51 to 57), and with them the toasts
  shown so far: \<^verbatim>\<open>toast\<close> is the one effect of the adapters that is not a state cell.
\<close>

record state =
  currentMood :: int
  tracks :: "Track list"
  videos :: "YouTubeVideo list"
  books :: "Book list"
  loading :: bool
  playingTracks :: "string set"
  selectedBook :: "Book option"
  toasts :: "Toast list"

text \<open>The initial values passed to \<^verbatim>\<open>useState\<close>.\<close>

definition init_state :: state where
  "init_state =
     \<lparr>currentMood = 5, tracks = [], videos = [], books = [], loading = True,
      playingTracks = {}, selectedBook = None, toasts = []\<rparr>"

subsection \<open>Mood classifier\<close>

definition low_bundle :: QueryBundle where
  "low_bundle =
     \<lparr>musicQuery = ''relaxing meditation ambient'',
      podcastQuery = ''mental health therapy mindfulness'',
      bookQuery = ''self help depression anxiety''\<rparr>"

definition mid_bundle :: QueryBundle where
  "mid_bundle =
     \<lparr>musicQuery = ''chill peaceful calm'',
      podcastQuery = ''motivation wellness lifestyle'',
      bookQuery = ''psychology happiness mindfulness''\<rparr>"

definition high_bundle :: QueryBundle where
  "high_bundle =
     \<lparr>musicQuery = ''uplifting energetic positive'',
      podcastQuery = ''success motivation inspiration'',
      bookQuery = ''personal development success happiness''\<rparr>"

text \<open>\<^verbatim>\<open>getMoodBasedContent\<close>, lines 62 to 82: the same two comparisons in the same order.\<close>

definition getMoodBasedContent :: "int \<Rightarrow> QueryBundle" where
  "getMoodBasedContent mood =
     (if mood \<le> 3 then
        \<lparr>musicQuery = ''relaxing meditation ambient'',
         podcastQuery = ''mental health therapy mindfulness'',
         bookQuery = ''self help depression anxiety''\<rparr>
      else if mood \<le> 6 then
        \<lparr>musicQuery = ''chill peaceful calm'',
         podcastQuery = ''motivation wellness lifestyle'',
         bookQuery = ''psychology happiness mindfulness''\<rparr>
      else
        \<lparr>musicQuery = ''uplifting energetic positive'',
         podcastQuery = ''success motivation inspiration'',
         bookQuery = ''personal development success happiness''\<rparr>)"

subsection \<open>What the providers answer\<close>

text \<open>
  The errors a \<^verbatim>\<open>try\<close> block of the page can see: \<^verbatim>\<open>fetch\<close> rejects when the transport
  fails, \<^verbatim>\<open>response.json()\<close> rejects on a body that is not JSON, a property read on
  \<^verbatim>\<open>null\<close> throws a TypeError, and \<^verbatim>\<open>fetchYouTubeVideos\<close> throws the error object that
  \<^verbatim>\<open>supabase.functions.invoke\<close> hands back.
\<close>

datatype exn = NetworkError | SyntaxError | TypeError | FunctionsError string

text \<open>
  The body of a response as \<^verbatim>\<open>response.json()\<close> reads it: not JSON at all, the JSON
  value \<^verbatim>\<open>null\<close>, or an object whose result field (\<^verbatim>\<open>data\<close> for Audius, \<^verbatim>\<open>items\<close> for
  Google Books) is missing (\<open>None\<close>) or an array (\<open>Some\<close>, truthy also when empty).
  The page's TypeScript types give the field no other shape, and neither does this type.
\<close>

datatype 'a json_body = Unparseable | JsonNull | JsonObject "'a list option"

text \<open>What \<^verbatim>\<open>await fetch(url)\<close> gives: a rejection, or a response with its \<^verbatim>\<open>ok\<close> flag.\<close>

datatype 'a fetch_result = FetchRejected | Response bool "'a json_body"

text \<open>
  The part of the URL that varies: the query text and the page size asked for
  (\<^verbatim>\<open>limit=20\<close> for Audius, \<^verbatim>\<open>maxResults=6\<close> for Google Books).
\<close>

record search_request =
  search_query :: string
  page_limit :: nat

text \<open>
  What \<^verbatim>\<open>await supabase.functions.invoke('youtube-search', ...)\<close> gives: a rejection, or
  the pair \<^verbatim>\<open>{data, error}\<close>. \<^verbatim>\<open>data\<close> is \<^verbatim>\<open>null\<close> or the relay's JSON object with its
  \<^verbatim>\<open>items\<close> field missing or an array; \<^verbatim>\<open>error\<close> is \<^verbatim>\<open>null\<close> or an error object.
\<close>

datatype 'a relay_data = NoData | Data "'a list option"

datatype 'a invoke_result = InvokeRejected | Invoked "'a relay_data" "string option"

record providers =
  audius :: "search_request \<Rightarrow> Track fetch_result"
  youtube_search :: "string \<Rightarrow> YouTubeVideo invoke_result"
  google_books :: "search_request \<Rightarrow> Book fetch_result"

text \<open>
  The outcomes in which the \<^verbatim>\<open>try\<close> block of an adapter raises: for the two adapters
  built on \<^verbatim>\<open>fetch\<close>, a rejected \<^verbatim>\<open>fetch\<close> and an \<^verbatim>\<open>ok\<close> response whose body is not JSON
  or is \<^verbatim>\<open>null\<close>; for the video adapter, a rejected call and an \<^verbatim>\<open>error\<close> that is set.
  A response that is not \<^verbatim>\<open>ok\<close> is the non-success HTTP status.
\<close>

fun fetch_raises :: "'a fetch_result \<Rightarrow> bool" where
  "fetch_raises FetchRejected = True"
| "fetch_raises (Response ok Unparseable) = ok"
| "fetch_raises (Response ok JsonNull) = ok"
| "fetch_raises (Response ok (JsonObject d)) = False"

fun http_failure :: "'a fetch_result \<Rightarrow> bool" where
  "http_failure FetchRejected = False"
| "http_failure (Response ok b) = (\<not> ok)"

fun invoke_raises :: "'a invoke_result \<Rightarrow> bool" where
  "invoke_raises InvokeRejected = True"
| "invoke_raises (Invoked d None) = False"
| "invoke_raises (Invoked d (Some e)) = True"

subsection \<open>Source adapters\<close>

definition toast :: "Toast \<Rightarrow> state \<Rightarrow> state" where
  "toast t s = s\<lparr>toasts := toasts s @ [t]\<rparr>"

definition music_toast :: Toast where
  "music_toast =
     \<lparr>toast_title = ''Error'', toast_description = ''Failed to load music recommendations'',
      toast_variant = ''destructive''\<rparr>"

definition podcast_toast :: Toast where
  "podcast_toast =
     \<lparr>toast_title = ''Error'', toast_description = ''Failed to load podcast recommendations'',
      toast_variant = ''destructive''\<rparr>"

definition book_toast :: Toast where
  "book_toast =
     \<lparr>toast_title = ''Error'', toast_description = ''Failed to load book recommendations'',
      toast_variant = ''destructive''\<rparr>"

text \<open>
  Line 112: \<^verbatim>\<open>(data.data || []).filter((track) => track.duration > 30)\<close>.
\<close>

definition fullTracks :: "Track list option \<Rightarrow> Track list" where
  "fullTracks d =
     filter (\<lambda>track. duration track > 30) (case d of None \<Rightarrow> [] | Some xs \<Rightarrow> xs)"

text \<open>
  The \<^verbatim>\<open>try\<close> block of \<^verbatim>\<open>fetchAudiusTracks\<close>, lines 105 to 114. \<open>Inl\<close> is an exception
  leaving the block. A response that is not \<^verbatim>\<open>ok\<close> falls through the \<^verbatim>\<open>if\<close> with nothing
  done. \<^verbatim>\<open>slice(0, 6)\<close> is \<open>take 6\<close>.
\<close>

definition fetchAudiusTracks_try ::
  "(search_request \<Rightarrow> Track fetch_result) \<Rightarrow> string \<Rightarrow> state \<Rightarrow> exn + state" where
  "fetchAudiusTracks_try provider q s =
     (case provider \<lparr>search_query = q, page_limit = 20\<rparr> of
        FetchRejected \<Rightarrow> Inl NetworkError
      | Response ok body \<Rightarrow>
          if ok then
            (case body of
               Unparseable \<Rightarrow> Inl SyntaxError
             | JsonNull \<Rightarrow> Inl TypeError
             | JsonObject d \<Rightarrow> Inr (s\<lparr>tracks := take 6 (fullTracks d)\<rparr>))
          else Inr s)"

text \<open>
  \<^verbatim>\<open>fetchAudiusTracks\<close>, lines 103 to 123: the \<^verbatim>\<open>catch\<close> clause takes every exception of
  the block, logs it to the console and shows one toast. The result is a sum so that
  "the adapter does not throw" is a statement about it.
\<close>

definition fetchAudiusTracks ::
  "(search_request \<Rightarrow> Track fetch_result) \<Rightarrow> string \<Rightarrow> state \<Rightarrow> exn + state" where
  "fetchAudiusTracks provider q s =
     (case fetchAudiusTracks_try provider q s of
        Inl e \<Rightarrow> Inr (toast music_toast s)
      | Inr s' \<Rightarrow> Inr s')"

text \<open>
  The \<^verbatim>\<open>try\<close> block of \<^verbatim>\<open>fetchYouTubeVideos\<close>, lines 127 to 135: \<^verbatim>\<open>if (error) throw error\<close>,
  then \<^verbatim>\<open>if (data && data.items) setVideos(data.items)\<close>.
\<close>

definition fetchYouTubeVideos_try ::
  "(string \<Rightarrow> YouTubeVideo invoke_result) \<Rightarrow> string \<Rightarrow> state \<Rightarrow> exn + state" where
  "fetchYouTubeVideos_try relay q s =
     (case relay q of
        InvokeRejected \<Rightarrow> Inl NetworkError
      | Invoked d err \<Rightarrow>
          (case err of
             Some e \<Rightarrow> Inl (FunctionsError e)
           | None \<Rightarrow>
               (case d of
                  Data (Some xs) \<Rightarrow> Inr (s\<lparr>videos := xs\<rparr>)
                | Data None \<Rightarrow> Inr s
                | NoData \<Rightarrow> Inr s)))"

definition fetchYouTubeVideos ::
  "(string \<Rightarrow> YouTubeVideo invoke_result) \<Rightarrow> string \<Rightarrow> state \<Rightarrow> exn + state" where
  "fetchYouTubeVideos relay q s =
     (case fetchYouTubeVideos_try relay q s of
        Inl e \<Rightarrow> Inr (toast podcast_toast s)
      | Inr s' \<Rightarrow> Inr s')"

text \<open>
  The \<^verbatim>\<open>try\<close> block of \<^verbatim>\<open>fetchBooks\<close>, lines 148 to 155: \<^verbatim>\<open>setBooks(data.items || [])\<close>.
\<close>

definition fetchBooks_try ::
  "(search_request \<Rightarrow> Book fetch_result) \<Rightarrow> string \<Rightarrow> state \<Rightarrow> exn + state" where
  "fetchBooks_try provider q s =
     (case provider \<lparr>search_query = q, page_limit = 6\<rparr> of
        FetchRejected \<Rightarrow> Inl NetworkError
      | Response ok body \<Rightarrow>
          if ok then
            (case body of
               Unparseable \<Rightarrow> Inl SyntaxError
             | JsonNull \<Rightarrow> Inl TypeError
             | JsonObject d \<Rightarrow> Inr (s\<lparr>books := (case d of None \<Rightarrow> [] | Some xs \<Rightarrow> xs)\<rparr>))
          else Inr s)"

definition fetchBooks ::
  "(search_request \<Rightarrow> Book fetch_result) \<Rightarrow> string \<Rightarrow> state \<Rightarrow> exn + state" where
  "fetchBooks provider q s =
     (case fetchBooks_try provider q s of
        Inl e \<Rightarrow> Inr (toast book_toast s)
      | Inr s' \<Rightarrow> Inr s')"

subsection \<open>Orchestrator\<close>

text \<open>The three promises that \<^verbatim>\<open>loadRecommendations\<close> hands to \<^verbatim>\<open>Promise.all\<close>.\<close>

datatype adapter = Audius | YouTube | GoogleBooks

fun run_adapter :: "providers \<Rightarrow> QueryBundle \<Rightarrow> adapter \<Rightarrow> state \<Rightarrow> exn + state" where
  "run_adapter P content Audius s = fetchAudiusTracks (audius P) (musicQuery content) s"
| "run_adapter P content YouTube s = fetchYouTubeVideos (youtube_search P) (podcastQuery content) s"
| "run_adapter P content GoogleBooks s = fetchBooks (google_books P) (bookQuery content) s"

text \<open>\<^verbatim>\<open>Promise.all\<close> resolves when each of the three is in the list of settled adapters.\<close>

definition all_settled :: "adapter list \<Rightarrow> bool" where
  "all_settled finished \<longleftrightarrow>
     Audius \<in> set finished \<and> YouTube \<in> set finished \<and> GoogleBooks \<in> set finished"

subsection \<open>What the page shows\<close>

text \<open>
  Line 246: the progress bar with "Loading personalized content..." is rendered under
  \<^verbatim>\<open>loading\<close>. Line 260: the music section shows its "No music recommendations found"
  text under \<^verbatim>\<open>tracks.length === 0 && !loading\<close>. The video and book sections have no
  such text.
\<close>

definition shows_loading :: "state \<Rightarrow> bool" where
  "shows_loading s \<longleftrightarrow> loading s"

definition shows_no_music :: "state \<Rightarrow> bool" where
  "shows_no_music s \<longleftrightarrow> length (tracks s) = 0 \<and> \<not> loading s"

subsection \<open>Mood store and the two effects\<close>

text \<open>
  What the query on \<^verbatim>\<open>moodTable\<close> gives: a rejection, or \<^verbatim>\<open>{data, error}\<close> with the rows'
  \<^verbatim>\<open>mood_value\<close>s, newest first (\<^verbatim>\<open>data\<close> may be \<^verbatim>\<open>null\<close>) and whether \<^verbatim>\<open>error\<close> is set.
\<close>

datatype mood_rows = QueryRejected | QueryResult "int list option" bool

text \<open>
  \<^verbatim>\<open>fetchUserMood\<close>, lines 84 to 101. \<open>user\<close> is the id of the signed-in user, or \<open>None\<close>
  for \<^verbatim>\<open>null\<close>. The \<^verbatim>\<open>catch\<close> clause only logs.
\<close>

definition fetchUserMood :: "(string \<Rightarrow> mood_rows) \<Rightarrow> string option \<Rightarrow> state \<Rightarrow> state" where
  "fetchUserMood store user s =
     (case user of
        None \<Rightarrow> s
      | Some uid \<Rightarrow>
          (case store uid of
             QueryRejected \<Rightarrow> s
           | QueryResult d err \<Rightarrow>
               (case d of
                  None \<Rightarrow> s
                | Some rows \<Rightarrow>
                    if \<not> err \<and> length rows > 0 then s\<lparr>currentMood := hd rows\<rparr> else s)))"

text \<open>Whether the store has a reading for the user: the test of line 95 holds.\<close>

definition yields_reading :: "(string \<Rightarrow> mood_rows) \<Rightarrow> string option \<Rightarrow> bool" where
  "yields_reading store user \<longleftrightarrow>
     (case user of
        None \<Rightarrow> False
      | Some uid \<Rightarrow>
          (case store uid of
             QueryRejected \<Rightarrow> False
           | QueryResult d err \<Rightarrow> (case d of None \<Rightarrow> False | Some rows \<Rightarrow> \<not> err \<and> rows \<noteq> [])))"

text \<open>
  The effect of lines 213 to 217, \<^verbatim>\<open>useEffect(() => { if (currentMood) loadRecommendations() },
  [currentMood])\<close>. React runs it after the first render (\<open>prev = None\<close>) and after a
  render in which \<^verbatim>\<open>currentMood\<close> differs from its value at the render before. The
  result lists the moods for which it calls \<^verbatim>\<open>loadRecommendations\<close>: none or one. A
  number is truthy unless it is zero.
\<close>

definition mood_effect :: "int option \<Rightarrow> int \<Rightarrow> int list" where
  "mood_effect prev cur = (if prev \<noteq> Some cur \<and> cur \<noteq> 0 then [cur] else [])"

text \<open>
  The effect of lines 209 to 211 calls \<^verbatim>\<open>fetchUserMood\<close> after the first render and
  whenever \<^verbatim>\<open>user\<close> changes. \<open>users\<close> lists the values \<^verbatim>\<open>user\<close> takes, the one at the
  first render first; each starts one \<^verbatim>\<open>fetchUserMood\<close>, and after each the mood effect
  looks at \<^verbatim>\<open>currentMood\<close> again. The result is the last state and the moods for which a
  refresh was started.
\<close>

fun mood_updates :: "(string \<Rightarrow> mood_rows) \<Rightarrow> string option list \<Rightarrow> state \<Rightarrow> state \<times> int list" where
  "mood_updates store [] s = (s, [])"
| "mood_updates store (u # us) s =
     (let s' = fetchUserMood store u s;
          r = mood_effect (Some (currentMood s)) (currentMood s');
          (s'', rs) = mood_updates store us s'
      in (s'', r @ rs))"

definition initial_load :: "(string \<Rightarrow> mood_rows) \<Rightarrow> string option list \<Rightarrow> state \<times> int list" where
  "initial_load store users =
     (let r0 = mood_effect None (currentMood init_state);
          (s, rs) = mood_updates store users init_state
      in (s, r0 @ rs))"

subsection \<open>The page: refreshes on the shared state\<close>

text \<open>
  The page runs on one event loop, and every call of \<^verbatim>\<open>loadRecommendations\<close> writes the
  same \<^verbatim>\<open>useState\<close> cells. A call that has started is remembered with the bundle it
  computed and with those of its three adapters that have settled so far.
\<close>

record call =
  content :: QueryBundle
  settled :: "adapter list"

record page =
  ui :: state
  calls :: "call list"

definition page_init :: page where
  "page_init = \<lparr>ui = init_state, calls = []\<rparr>"

text \<open>
  \<^verbatim>\<open>loadRecommendations\<close>, lines 166 to 174, up to \<^verbatim>\<open>await Promise.all\<close>:
  \<^verbatim>\<open>setLoading(true)\<close>, the bundle of the current mood, and the three adapters called. An
  adapter writes nothing before its first \<^verbatim>\<open>await\<close>, so starting them changes no cell.
\<close>

definition loadRecommendations :: "page \<Rightarrow> page" where
  "loadRecommendations p =
     \<lparr>ui = (ui p)\<lparr>loading := True\<rparr>,
      calls = calls p @ [\<lparr>content = getMoodBasedContent (currentMood (ui p)), settled = []\<rparr>]\<rparr>"

text \<open>
  Adapter \<open>a\<close> of call number \<open>i\<close> settles. An adapter touches the state only in the last
  synchronous stretch of its body, after its last \<^verbatim>\<open>await\<close> (the one \<^verbatim>\<open>set...\<close> call, or
  the \<^verbatim>\<open>catch\<close> clause), so that stretch is one step on the shared state. \<open>P i\<close> is what
  the providers answer to call \<open>i\<close>. When the adapter is the last of the call's three,
  \<^verbatim>\<open>Promise.all\<close> resolves and the call goes on to line 176, \<^verbatim>\<open>setLoading(false)\<close>; a
  rejection would reject \<^verbatim>\<open>Promise.all\<close> and leave the call by an exception. Nothing
  looks at the other calls: there is no guard against a refresh that overlaps.
\<close>

definition settle :: "(nat \<Rightarrow> providers) \<Rightarrow> nat \<Rightarrow> adapter \<Rightarrow> page \<Rightarrow> exn + page" where
  "settle P i a p =
     (if i < length (calls p) \<and> a \<notin> set (settled (calls p ! i)) then
        (case run_adapter (P i) (content (calls p ! i)) a (ui p) of
           Inl e \<Rightarrow> Inl e
         | Inr u \<Rightarrow>
             let c = (calls p ! i)\<lparr>settled := settled (calls p ! i) @ [a]\<rparr>
             in Inr \<lparr>ui = (if all_settled (settled c) then u\<lparr>loading := False\<rparr> else u),
                     calls = (calls p)[i := c]\<rparr>)
      else Inr p)"

text \<open>
  What happens to the page: the first render (\<open>Mount\<close>), after which the effect of lines
  213 to 217 runs for the first time; a \<^verbatim>\<open>fetchUserMood\<close> started for the user value \<open>u\<close>
  returns (\<open>UserIs u\<close>), after which that effect looks at \<^verbatim>\<open>currentMood\<close> again; a click
  on the refresh button, which is disabled under \<^verbatim>\<open>loading\<close> (line 238); and an adapter
  of a call settles.
\<close>

datatype page_event = Mount | UserIs "string option" | ClickRefresh | Settled nat adapter

fun page_step ::
  "(string \<Rightarrow> mood_rows) \<Rightarrow> (nat \<Rightarrow> providers) \<Rightarrow> page_event \<Rightarrow> page \<Rightarrow> exn + page" where
  "page_step store P Mount p =
     Inr (if mood_effect None (currentMood (ui p)) = [] then p else loadRecommendations p)"
| "page_step store P (UserIs u) p =
     (let p' = p\<lparr>ui := fetchUserMood store u (ui p)\<rparr>
      in Inr (if mood_effect (Some (currentMood (ui p))) (currentMood (ui p')) = [] then p'
              else loadRecommendations p'))"
| "page_step store P ClickRefresh p = Inr (if loading (ui p) then p else loadRecommendations p)"
| "page_step store P (Settled i a) p = settle P i a p"

fun page_run ::
  "(string \<Rightarrow> mood_rows) \<Rightarrow> (nat \<Rightarrow> providers) \<Rightarrow> page_event list \<Rightarrow> page \<Rightarrow> exn + page" where
  "page_run store P [] p = Inr p"
| "page_run store P (e # es) p =
     (case page_step store P e p of
        Inl x \<Rightarrow> Inl x
      | Inr p' \<Rightarrow> page_run store P es p')"

text \<open>No call has had all three adapters settle; no call has had adapter \<open>a\<close> settle.\<close>

definition no_call_complete :: "page \<Rightarrow> bool" where
  "no_call_complete p \<longleftrightarrow> list_all (\<lambda>c. \<not> all_settled (settled c)) (calls p)"

definition never_settled :: "adapter \<Rightarrow> page \<Rightarrow> bool" where
  "never_settled a p \<longleftrightarrow> list_all (\<lambda>c. a \<notin> set (settled c)) (calls p)"

subsection \<open>Playback\<close>

text \<open>
  \<^verbatim>\<open>playTrack\<close>, lines 179 to 189: the id leaves the set if it is in it and enters it
  otherwise.
\<close>

definition playTrack :: "string \<Rightarrow> state \<Rightarrow> state" where
  "playTrack trackId s =
     s\<lparr>playingTracks :=
         (let prev = playingTracks s
          in if trackId \<in> prev then prev - {trackId} else insert trackId prev)\<rparr>"

text \<open>The \<^verbatim>\<open>onPlay\<close> and \<^verbatim>\<open>onPause\<close> handlers of a track's audio element, lines 289 to 294.\<close>

definition onPlay :: "string \<Rightarrow> state \<Rightarrow> state" where
  "onPlay trackId s = s\<lparr>playingTracks := insert trackId (playingTracks s)\<rparr>"

definition onPause :: "string \<Rightarrow> state \<Rightarrow> state" where
  "onPause trackId s = s\<lparr>playingTracks := playingTracks s - {trackId}\<rparr>"

text \<open>Lines 276 and 281: a track's button reads "Pause" when its id is in the set.\<close>

definition reports_playing :: "state \<Rightarrow> string \<Rightarrow> bool" where
  "reports_playing s trackId \<longleftrightarrow> trackId \<in> playingTracks s"

datatype playback_event = TogglePlay string | MediaPlay string | MediaPause string

fun target :: "playback_event \<Rightarrow> string" where
  "target (TogglePlay t) = t"
| "target (MediaPlay t) = t"
| "target (MediaPause t) = t"

fun playback_step :: "playback_event \<Rightarrow> state \<Rightarrow> state" where
  "playback_step (TogglePlay t) s = playTrack t s"
| "playback_step (MediaPlay t) s = onPlay t s"
| "playback_step (MediaPause t) s = onPause t s"

fun playback_run :: "playback_event list \<Rightarrow> state \<Rightarrow> state" where
  "playback_run [] s = s"
| "playback_run (e # es) s = playback_run es (playback_step e s)"

text \<open>
  The earlier form of the page (\<^verbatim>\<open>src/unnamed/part_000\<close>, lines 55, 56 and 176 to 184)
  keeps \<^verbatim>\<open>currentTrack\<close> and \<^verbatim>\<open>isPlaying\<close> in place of the set. Its \<^verbatim>\<open>playTrack\<close>:
\<close>

record single_player =
  currentTrack :: "string option"
  isPlaying :: bool

definition single_idle :: single_player where
  "single_idle = \<lparr>currentTrack = None, isPlaying = False\<rparr>"

definition playTrack_single :: "string \<Rightarrow> single_player \<Rightarrow> single_player" where
  "playTrack_single trackId p =
     (if currentTrack p = Some trackId \<and> isPlaying p
      then p\<lparr>isPlaying := False, currentTrack := None\<rparr>
      else p\<lparr>currentTrack := Some trackId, isPlaying := True\<rparr>)"

text \<open>Lines 261 and 266 of that file: the button of a track reads "Pause" under this test.\<close>

definition single_reports_playing :: "single_player \<Rightarrow> string \<Rightarrow> bool" where
  "single_reports_playing p trackId \<longleftrightarrow> currentTrack p = Some trackId \<and> isPlaying p"

subsection \<open>Book detail selection\<close>

text \<open>
  The click handlers that write \<^verbatim>\<open>selectedBook\<close>: a book card (line 340), the dark overlay
  around the detail (line 375), the detail panel itself, whose handler only stops the
  click from reaching the overlay (line 376), and the close button (line 380).
\<close>

datatype click = BookCard Book | ModalOverlay | ModalContent | CloseButton

fun click_step :: "click \<Rightarrow> state \<Rightarrow> state" where
  "click_step (BookCard book) s = s\<lparr>selectedBook := Some book\<rparr>"
| "click_step ModalOverlay s = s\<lparr>selectedBook := None\<rparr>"
| "click_step ModalContent s = s"
| "click_step CloseButton s = s\<lparr>selectedBook := None\<rparr>"

subsection \<open>Sample data\<close>

text \<open>
  Concrete values on which the theorems below are run: three tracks of 15, 45 and 200
  seconds, a video, a book, and providers of which the video relay fails while the
  other two answer.
\<close>

definition sample_track :: "string \<Rightarrow> int \<Rightarrow> Track" where
  "sample_track i d =
     \<lparr>track_id = i, track_title = ''Song'', user_name = ''Artist'', genre = None, duration = d\<rparr>"

definition sample_tracks :: "Track list" where
  "sample_tracks = [sample_track ''t1'' 15, sample_track ''t2'' 45, sample_track ''t3'' 200]"

definition sample_video :: "string \<Rightarrow> YouTubeVideo" where
  "sample_video i =
     \<lparr>videoId = i, snippet_title = ''Talk'', channelTitle = ''Channel'',
      snippet_description = ''About'', thumbnail_url = ''https://img''\<rparr>"

definition sample_book :: "string \<Rightarrow> Book" where
  "sample_book i =
     \<lparr>book_id = i, volume_title = ''Book'', authors = None, description = None,
      imageLinks_thumbnail = None, publishedDate = None\<rparr>"

definition sample_providers :: providers where
  "sample_providers =
     \<lparr>audius = (\<lambda>r. Response True (JsonObject (Some sample_tracks))),
      youtube_search = (\<lambda>q. Invoked NoData (Some ''non-2xx status code'')),
      google_books = (\<lambda>r. Response True (JsonObject (Some [sample_book ''b1''])))\<rparr>"

text \<open>A mood table that holds the readings 8 and, older, 3 for every user.\<close>

definition sample_store :: "string \<Rightarrow> mood_rows" where
  "sample_store uid = QueryResult (Some [8, 3]) False"

section \<open>Properties\<close>

subsection \<open>Mood classifier\<close>

text \<open>
  Claim C4. For every integer mood from 1 to 10 the classifier returns one of the three
  fixed bundles, chosen by the bands \<open>mood \<le> 3\<close>, \<open>4 \<le> mood \<le> 6\<close> and \<open>7 \<le> mood\<close>; the
  three bundles are pairwise different, so it is exactly one of them; and mood 2 gives
  the bundle of the lowest band, spelled out field by field. The classifier is a HOL
  function of the mood alone, hence total and pure.
\<close>

theorem getMoodBasedContent_bands:
  "(1 \<le> mood \<and> mood \<le> 10 \<longrightarrow>
      (mood \<le> 3 \<longrightarrow> getMoodBasedContent mood = low_bundle) \<and>
      (4 \<le> mood \<and> mood \<le> 6 \<longrightarrow> getMoodBasedContent mood = mid_bundle) \<and>
      (7 \<le> mood \<longrightarrow> getMoodBasedContent mood = high_bundle) \<and>
      (getMoodBasedContent mood = low_bundle \<or> getMoodBasedContent mood = mid_bundle \<or>
       getMoodBasedContent mood = high_bundle)) \<and>
   low_bundle \<noteq> mid_bundle \<and> mid_bundle \<noteq> high_bundle \<and> low_bundle \<noteq> high_bundle \<and>
   getMoodBasedContent 2 =
     \<lparr>musicQuery = ''relaxing meditation ambient'',
      podcastQuery = ''mental health therapy mindfulness'',
      bookQuery = ''self help depression anxiety''\<rparr>"
  by (simp add: getMoodBasedContent_def low_bundle_def mid_bundle_def high_bundle_def)

theorem getMoodBasedContent_bands_witness:
  "getMoodBasedContent 2 = low_bundle \<and> getMoodBasedContent 5 = mid_bundle \<and>
   getMoodBasedContent 9 = high_bundle"
  using getMoodBasedContent_bands [of 2] getMoodBasedContent_bands [of 5]
    getMoodBasedContent_bands [of 9]
  by simp

subsection \<open>Default mood and the first refresh\<close>

lemma fetchUserMood_no_reading:
  "\<not> yields_reading store u \<Longrightarrow> fetchUserMood store u s = s"
  by (auto simp: yields_reading_def fetchUserMood_def split: option.splits mood_rows.splits)

lemma mood_updates_no_reading:
  "\<forall>u \<in> set users. \<not> yields_reading store u \<Longrightarrow> mood_updates store users s = (s, [])"
  by (induction users arbitrary: s) (simp_all add: fetchUserMood_no_reading mood_effect_def)

text \<open>
  Claim C7. If the mood store has no reading for any value the user takes during the
  initial load (no user, a rejected query, an error, no rows), \<^verbatim>\<open>currentMood\<close> keeps its
  default 5, the bundle is the one of the band 4 to 6, and \<^verbatim>\<open>loadRecommendations\<close> is
  started exactly once, for mood 5. Whatever the store answers, that first refresh is
  started by the effect of the first render and does not wait for the store.
\<close>

theorem default_mood:
  "((\<forall>u \<in> set users. \<not> yields_reading store u) \<longrightarrow>
      (\<exists>s. initial_load store users = (s, [5]) \<and> currentMood s = 5 \<and>
           getMoodBasedContent (currentMood s) = mid_bundle)) \<and>
   (\<exists>s rs. initial_load store users = (s, 5 # rs))"
proof -
  have first: "mood_effect None (currentMood init_state) = [5]"
    by (simp add: mood_effect_def init_state_def)
  have a: "(\<forall>u \<in> set users. \<not> yields_reading store u) \<longrightarrow>
      (\<exists>s. initial_load store users = (s, [5]) \<and> currentMood s = 5 \<and>
           getMoodBasedContent (currentMood s) = mid_bundle)"
  proof
    assume "\<forall>u \<in> set users. \<not> yields_reading store u"
    then have "mood_updates store users init_state = (init_state, [])"
      by (rule mood_updates_no_reading)
    then have "initial_load store users = (init_state, [5])"
      using first by (simp add: initial_load_def)
    moreover have "currentMood init_state = 5"
      by (simp add: init_state_def)
    moreover have "getMoodBasedContent 5 = mid_bundle"
      by (simp add: getMoodBasedContent_def mid_bundle_def)
    ultimately show "\<exists>s. initial_load store users = (s, [5]) \<and> currentMood s = 5 \<and>
           getMoodBasedContent (currentMood s) = mid_bundle"
      by simp
  qed
  have b: "\<exists>s rs. initial_load store users = (s, 5 # rs)"
    using first by (simp add: initial_load_def split: prod.splits)
  show ?thesis using a b by blast
qed

theorem default_mood_witness:
  "\<not> yields_reading (\<lambda>uid. QueryResult (Some []) False) (Some ''u1'') \<and>
   \<not> yields_reading (\<lambda>uid. QueryResult (Some []) False) None \<and>
   (\<exists>s. initial_load (\<lambda>uid. QueryResult (Some []) False) [None, Some ''u1''] = (s, [5]) \<and>
        currentMood s = 5 \<and> getMoodBasedContent (currentMood s) = mid_bundle)"
proof -
  have h: "\<forall>u \<in> set [None, Some ''u1'']. \<not> yields_reading (\<lambda>uid. QueryResult (Some []) False) u"
    by (simp add: yields_reading_def)
  from h default_mood [of "[None, Some ''u1'']" "\<lambda>uid. QueryResult (Some []) False"]
  have "\<exists>s. initial_load (\<lambda>uid. QueryResult (Some []) False) [None, Some ''u1''] = (s, [5]) \<and>
        currentMood s = 5 \<and> getMoodBasedContent (currentMood s) = mid_bundle"
    by blast
  then show ?thesis using h by simp
qed

subsection \<open>Adapters: shared facts\<close>

text \<open>
  Each adapter, with its \<^verbatim>\<open>try\<close> and \<^verbatim>\<open>catch\<close> put together: it always returns, and the
  state it returns is read off the provider's answer.
\<close>

lemma toast_fields:
  "tracks (toast t s) = tracks s" "videos (toast t s) = videos s" "books (toast t s) = books s"
  "loading (toast t s) = loading s" "toasts (toast t s) = toasts s @ [t]"
  "currentMood (toast t s) = currentMood s"
  by (simp_all add: toast_def)

lemma fetchAudiusTracks_cases:
  "fetchAudiusTracks p q s =
     Inr (case p \<lparr>search_query = q, page_limit = 20\<rparr> of
            FetchRejected \<Rightarrow> toast music_toast s
          | Response ok body \<Rightarrow>
              if ok then
                (case body of
                   Unparseable \<Rightarrow> toast music_toast s
                 | JsonNull \<Rightarrow> toast music_toast s
                 | JsonObject d \<Rightarrow> s\<lparr>tracks := take 6 (fullTracks d)\<rparr>)
              else s)"
  by (simp add: fetchAudiusTracks_def fetchAudiusTracks_try_def
      split: fetch_result.splits json_body.splits)

lemma fetchBooks_cases:
  "fetchBooks p q s =
     Inr (case p \<lparr>search_query = q, page_limit = 6\<rparr> of
            FetchRejected \<Rightarrow> toast book_toast s
          | Response ok body \<Rightarrow>
              if ok then
                (case body of
                   Unparseable \<Rightarrow> toast book_toast s
                 | JsonNull \<Rightarrow> toast book_toast s
                 | JsonObject d \<Rightarrow> s\<lparr>books := (case d of None \<Rightarrow> [] | Some xs \<Rightarrow> xs)\<rparr>)
              else s)"
  by (simp add: fetchBooks_def fetchBooks_try_def
      split: fetch_result.splits json_body.splits)

lemma fetchYouTubeVideos_cases:
  "fetchYouTubeVideos r q s =
     Inr (case r q of
            InvokeRejected \<Rightarrow> toast podcast_toast s
          | Invoked d err \<Rightarrow>
              (case err of
                 Some e \<Rightarrow> toast podcast_toast s
               | None \<Rightarrow>
                   (case d of
                      Data (Some xs) \<Rightarrow> s\<lparr>videos := xs\<rparr>
                    | Data None \<Rightarrow> s
                    | NoData \<Rightarrow> s)))"
  by (simp add: fetchYouTubeVideos_def fetchYouTubeVideos_try_def
      split: invoke_result.splits relay_data.splits option.splits)

lemma run_adapter_Inr: "\<exists>s'. run_adapter P c a s = Inr s'"
  by (cases a) (simp_all add: fetchAudiusTracks_cases fetchBooks_cases fetchYouTubeVideos_cases)

lemma run_adapter_loading: "run_adapter P c a s = Inr s' \<Longrightarrow> loading s' = loading s"
  by (cases a)
    (auto simp: fetchAudiusTracks_cases fetchBooks_cases fetchYouTubeVideos_cases toast_fields
      split: fetch_result.splits json_body.splits invoke_result.splits relay_data.splits
        option.splits if_splits)

lemma run_adapter_tracks:
  "run_adapter P c a s = Inr s' \<Longrightarrow> a \<noteq> Audius \<Longrightarrow> tracks s' = tracks s"
  by (cases a)
    (auto simp: fetchBooks_cases fetchYouTubeVideos_cases toast_fields
      split: fetch_result.splits json_body.splits invoke_result.splits relay_data.splits
        option.splits if_splits)

lemma run_adapter_videos:
  "run_adapter P c a s = Inr s' \<Longrightarrow> a \<noteq> YouTube \<Longrightarrow> videos s' = videos s"
  by (cases a)
    (auto simp: fetchAudiusTracks_cases fetchBooks_cases toast_fields
      split: fetch_result.splits json_body.splits invoke_result.splits relay_data.splits
        option.splits if_splits)

lemma run_adapter_books:
  "run_adapter P c a s = Inr s' \<Longrightarrow> a \<noteq> GoogleBooks \<Longrightarrow> books s' = books s"
  by (cases a)
    (auto simp: fetchAudiusTracks_cases fetchYouTubeVideos_cases toast_fields
      split: fetch_result.splits json_body.splits invoke_result.splits relay_data.splits
        option.splits if_splits)

subsection \<open>Source adapters\<close>

text \<open>
  As the specification words claim C1, a failed call empties the section's list and
  always shows one toast. The adapters do neither in general: a rejected \<^verbatim>\<open>fetch\<close> leaves
  the track list of the last refresh in place, and a response that is not \<^verbatim>\<open>ok\<close> leaves
  the book list in place and shows no toast.
\<close>

theorem adapters_skip_update_counterexample:
  "fetch_raises (FetchRejected :: Track fetch_result) \<and>
   (\<exists>s'. fetchAudiusTracks (\<lambda>r. FetchRejected) ''chill peaceful calm''
            (init_state\<lparr>tracks := [sample_track ''t2'' 45]\<rparr>) = Inr s' \<and>
         tracks s' = [sample_track ''t2'' 45] \<and> tracks s' \<noteq> []) \<and>
   http_failure (Response False Unparseable :: Book fetch_result) \<and>
   (\<exists>s'. fetchBooks (\<lambda>r. Response False Unparseable) ''psychology happiness mindfulness''
            (init_state\<lparr>books := [sample_book ''b1'']\<rparr>) = Inr s' \<and>
         books s' = [sample_book ''b1''] \<and> toasts s' = [])"
  by (simp add: fetchAudiusTracks_cases fetchBooks_cases toast_fields init_state_def)

text \<open>
  Claim C1, as the code has it. No adapter throws to its caller. When the \<^verbatim>\<open>try\<close> block
  raises (a rejected \<^verbatim>\<open>fetch\<close> or relay call, an \<^verbatim>\<open>ok\<close> response whose body is not JSON or is
  \<^verbatim>\<open>null\<close>, an \<^verbatim>\<open>error\<close> set by the relay) the section's list is left as it was and exactly
  one toast is added. On a response that is not \<^verbatim>\<open>ok\<close> the track and the book adapter
  leave the section's list as it was.
\<close>

theorem adapters_absorb_failures:
  "(\<exists>s'. fetchAudiusTracks pa q s = Inr s') \<and>
   (\<exists>s'. fetchYouTubeVideos py q s = Inr s') \<and>
   (\<exists>s'. fetchBooks pb q s = Inr s') \<and>
   (fetch_raises (pa \<lparr>search_query = q, page_limit = 20\<rparr>) \<longrightarrow>
      (\<exists>s'. fetchAudiusTracks pa q s = Inr s' \<and> tracks s' = tracks s \<and>
            toasts s' = toasts s @ [music_toast])) \<and>
   (invoke_raises (py q) \<longrightarrow>
      (\<exists>s'. fetchYouTubeVideos py q s = Inr s' \<and> videos s' = videos s \<and>
            toasts s' = toasts s @ [podcast_toast])) \<and>
   (fetch_raises (pb \<lparr>search_query = q, page_limit = 6\<rparr>) \<longrightarrow>
      (\<exists>s'. fetchBooks pb q s = Inr s' \<and> books s' = books s \<and>
            toasts s' = toasts s @ [book_toast])) \<and>
   (http_failure (pa \<lparr>search_query = q, page_limit = 20\<rparr>) \<longrightarrow>
      (\<exists>s'. fetchAudiusTracks pa q s = Inr s' \<and> tracks s' = tracks s)) \<and>
   (http_failure (pb \<lparr>search_query = q, page_limit = 6\<rparr>) \<longrightarrow>
      (\<exists>s'. fetchBooks pb q s = Inr s' \<and> books s' = books s))"
proof -
  have a: "fetch_raises (pa \<lparr>search_query = q, page_limit = 20\<rparr>) \<longrightarrow>
      (\<exists>s'. fetchAudiusTracks pa q s = Inr s' \<and> tracks s' = tracks s \<and>
            toasts s' = toasts s @ [music_toast])"
    by (cases "pa \<lparr>search_query = q, page_limit = 20\<rparr>" rule: fetch_raises.cases)
      (simp_all add: fetchAudiusTracks_cases toast_fields)
  have b: "fetch_raises (pb \<lparr>search_query = q, page_limit = 6\<rparr>) \<longrightarrow>
      (\<exists>s'. fetchBooks pb q s = Inr s' \<and> books s' = books s \<and>
            toasts s' = toasts s @ [book_toast])"
    by (cases "pb \<lparr>search_query = q, page_limit = 6\<rparr>" rule: fetch_raises.cases)
      (simp_all add: fetchBooks_cases toast_fields)
  have v: "invoke_raises (py q) \<longrightarrow>
      (\<exists>s'. fetchYouTubeVideos py q s = Inr s' \<and> videos s' = videos s \<and>
            toasts s' = toasts s @ [podcast_toast])"
    by (cases "py q" rule: invoke_raises.cases)
      (simp_all add: fetchYouTubeVideos_cases toast_fields)
  have ha: "http_failure (pa \<lparr>search_query = q, page_limit = 20\<rparr>) \<longrightarrow>
      (\<exists>s'. fetchAudiusTracks pa q s = Inr s' \<and> tracks s' = tracks s)"
    by (cases "pa \<lparr>search_query = q, page_limit = 20\<rparr>" rule: http_failure.cases)
      (simp_all add: fetchAudiusTracks_cases)
  have hb: "http_failure (pb \<lparr>search_query = q, page_limit = 6\<rparr>) \<longrightarrow>
      (\<exists>s'. fetchBooks pb q s = Inr s' \<and> books s' = books s)"
    by (cases "pb \<lparr>search_query = q, page_limit = 6\<rparr>" rule: http_failure.cases)
      (simp_all add: fetchBooks_cases)
  show ?thesis
    using a b v ha hb
    by (simp add: fetchAudiusTracks_cases fetchBooks_cases fetchYouTubeVideos_cases)
qed

theorem adapters_absorb_failures_witness:
  "fetch_raises (Response True JsonNull :: Track fetch_result) \<and>
   (\<exists>s'. fetchAudiusTracks (\<lambda>r. Response True JsonNull) ''chill peaceful calm''
            (init_state\<lparr>tracks := sample_tracks\<rparr>) = Inr s' \<and>
         tracks s' = sample_tracks \<and> toasts s' = [music_toast]) \<and>
   invoke_raises (youtube_search sample_providers ''chill peaceful calm'') \<and>
   (\<exists>s'. fetchYouTubeVideos (youtube_search sample_providers) ''chill peaceful calm''
            (init_state\<lparr>tracks := sample_tracks\<rparr>) = Inr s' \<and>
         videos s' = [] \<and> toasts s' = [podcast_toast]) \<and>
   fetch_raises (FetchRejected :: Book fetch_result) \<and>
   (\<exists>s'. fetchBooks (\<lambda>r. FetchRejected) ''chill peaceful calm''
            (init_state\<lparr>tracks := sample_tracks\<rparr>) = Inr s' \<and>
         books s' = [] \<and> toasts s' = [book_toast]) \<and>
   http_failure (Response False Unparseable :: Track fetch_result) \<and>
   (\<exists>s'. fetchAudiusTracks (\<lambda>r. Response False Unparseable) ''chill peaceful calm''
            (init_state\<lparr>tracks := sample_tracks\<rparr>) = Inr s' \<and>
         tracks s' = sample_tracks) \<and>
   http_failure (Response False Unparseable :: Book fetch_result) \<and>
   (\<exists>s'. fetchBooks (\<lambda>r. Response False Unparseable) ''chill peaceful calm''
            (init_state\<lparr>tracks := sample_tracks\<rparr>) = Inr s' \<and>
         books s' = [])"
  using adapters_absorb_failures
    [of "\<lambda>r. Response True JsonNull" "''chill peaceful calm''"
        "init_state\<lparr>tracks := sample_tracks\<rparr>"
        "youtube_search sample_providers" "\<lambda>r. FetchRejected"]
    adapters_absorb_failures
    [of "\<lambda>r. Response False Unparseable" "''chill peaceful calm''"
        "init_state\<lparr>tracks := sample_tracks\<rparr>"
        "youtube_search sample_providers" "\<lambda>r. Response False Unparseable"]
  by (simp add: sample_providers_def init_state_def)

lemma count_list_filter:
  "count_list (filter P xs) t = (if P t then count_list xs t else 0)"
  by (induction xs) auto

text \<open>
  Claim C3. On an \<^verbatim>\<open>ok\<close> response carrying the track list \<open>xs\<close>, the filtered list
  \<open>fullTracks\<close> holds exactly the tracks of \<open>xs\<close> that last more than 30 seconds, each as
  often as in \<open>xs\<close> and in the order of \<open>xs\<close>; the adapter stores its first six, so the
  stored list has at most six tracks, all longer than 30 seconds, in the provider's order.
\<close>

theorem track_filter:
  "(provider \<lparr>search_query = q, page_limit = 20\<rparr> = Response True (JsonObject (Some xs)) \<longrightarrow>
      (\<exists>s'. fetchAudiusTracks provider q s = Inr s' \<and>
            tracks s' = take 6 (fullTracks (Some xs)) \<and>
            length (tracks s') \<le> 6 \<and>
            subseq (tracks s') xs \<and>
            (\<forall>t \<in> set (tracks s'). duration t > 30))) \<and>
   (\<forall>t. t \<in> set (fullTracks (Some xs)) \<longleftrightarrow> t \<in> set xs \<and> duration t > 30) \<and>
   (\<forall>t. count_list (fullTracks (Some xs)) t = (if duration t > 30 then count_list xs t else 0)) \<and>
   subseq (fullTracks (Some xs)) xs"
proof -
  have sub: "subseq (fullTracks (Some xs)) xs"
    by (simp add: fullTracks_def)
  have "prefix (take 6 (fullTracks (Some xs))) (fullTracks (Some xs))"
    by (rule take_is_prefix)
  then have sub6: "subseq (take 6 (fullTracks (Some xs))) xs"
    using sub prefix_imp_subseq subseq_order.trans by blast
  have dur: "\<forall>t \<in> set (take 6 (fullTracks (Some xs))). duration t > 30"
    by (auto simp: fullTracks_def dest: in_set_takeD)
  have mem: "\<forall>t. t \<in> set (fullTracks (Some xs)) \<longleftrightarrow> t \<in> set xs \<and> duration t > 30"
    by (auto simp: fullTracks_def)
  have cnt: "\<forall>t. count_list (fullTracks (Some xs)) t =
               (if duration t > 30 then count_list xs t else 0)"
    by (simp add: fullTracks_def count_list_filter)
  show ?thesis
    using sub sub6 dur mem cnt by (simp add: fetchAudiusTracks_cases)
qed

theorem track_filter_witness:
  "(\<exists>s'. fetchAudiusTracks (audius sample_providers) ''chill peaceful calm'' init_state = Inr s' \<and>
         tracks s' = [sample_track ''t2'' 45, sample_track ''t3'' 200] \<and>
         length (tracks s') \<le> 6) \<and>
   fullTracks (Some sample_tracks) = [sample_track ''t2'' 45, sample_track ''t3'' 200]"
proof -
  have h: "audius sample_providers \<lparr>search_query = ''chill peaceful calm'', page_limit = 20\<rparr> =
             Response True (JsonObject (Some sample_tracks))"
    by (simp add: sample_providers_def)
  have f: "fullTracks (Some sample_tracks) = [sample_track ''t2'' 45, sample_track ''t3'' 200]"
    by (simp add: fullTracks_def sample_tracks_def sample_track_def)
  from h track_filter
         [of "audius sample_providers" "''chill peaceful calm''" sample_tracks init_state]
  obtain s' where
    "fetchAudiusTracks (audius sample_providers) ''chill peaceful calm'' init_state = Inr s'"
    "tracks s' = take 6 (fullTracks (Some sample_tracks))" "length (tracks s') \<le> 6"
    by blast
  then show ?thesis using f by simp
qed

text \<open>
  As the specification words claim C8, the video and the book adapter cap every
  response at six items. They do not: seven items sent are seven items stored.
\<close>

theorem page_size_counterexample:
  "(\<exists>s'. fetchBooks (\<lambda>r. Response True (JsonObject (Some (map sample_book
              [''b1'', ''b2'', ''b3'', ''b4'', ''b5'', ''b6'', ''b7'']))))
            ''psychology happiness mindfulness'' init_state = Inr s' \<and>
         length (books s') = 7) \<and>
   (\<exists>s'. fetchYouTubeVideos (\<lambda>q. Invoked (Data (Some (map sample_video
              [''v1'', ''v2'', ''v3'', ''v4'', ''v5'', ''v6'', ''v7'']))) None)
            ''motivation wellness lifestyle'' init_state = Inr s' \<and>
         length (videos s') = 7)"
  by (simp add: fetchBooks_cases fetchYouTubeVideos_cases)

text \<open>
  Claim C8, as the code has it. The book adapter asks its provider for a page of six
  (\<open>page_limit = 6\<close>) and the video adapter leaves the page size to the relay; both store
  the items of the answer as they come. So the \<open>videos\<close> and \<open>books\<close> lists stay within
  six entries as long as the answers do.
\<close>

theorem page_size_from_provider:
  "(relay q = Invoked (Data (Some vs)) None \<longrightarrow>
      fetchYouTubeVideos relay q s = Inr (s\<lparr>videos := vs\<rparr>)) \<and>
   (provider \<lparr>search_query = q, page_limit = 6\<rparr> = Response True (JsonObject (Some bs)) \<longrightarrow>
      fetchBooks provider q s = Inr (s\<lparr>books := bs\<rparr>)) \<and>
   (length (videos s) \<le> 6 \<and> (\<forall>vs. relay q = Invoked (Data (Some vs)) None \<longrightarrow> length vs \<le> 6) \<longrightarrow>
      (\<exists>s'. fetchYouTubeVideos relay q s = Inr s' \<and> length (videos s') \<le> 6)) \<and>
   (length (books s) \<le> 6 \<and>
    (\<forall>bs. provider \<lparr>search_query = q, page_limit = 6\<rparr> = Response True (JsonObject (Some bs))
       \<longrightarrow> length bs \<le> 6) \<longrightarrow>
      (\<exists>s'. fetchBooks provider q s = Inr s' \<and> length (books s') \<le> 6))"
  by (auto simp: fetchBooks_cases fetchYouTubeVideos_cases toast_fields
      split: fetch_result.splits json_body.splits invoke_result.splits relay_data.splits
        option.splits)

theorem page_size_from_provider_witness:
  "(\<exists>s'. fetchYouTubeVideos (\<lambda>q. Invoked (Data (Some [sample_video ''v1''])) None)
           ''motivation wellness lifestyle'' init_state = Inr s' \<and> videos s' = [sample_video ''v1'']
           \<and> length (videos s') \<le> 6) \<and>
   (\<exists>s'. fetchBooks (google_books sample_providers) ''motivation wellness lifestyle'' init_state = Inr s'
           \<and> books s' = [sample_book ''b1''] \<and> length (books s') \<le> 6)"
  using page_size_from_provider
    [of "\<lambda>q. Invoked (Data (Some [sample_video ''v1''])) None" "''motivation wellness lifestyle''"
        "[sample_video ''v1'']" init_state "google_books sample_providers" "[sample_book ''b1'']"]
  by (simp add: sample_providers_def init_state_def)

subsection \<open>Orchestrator\<close>

text \<open>Settlements and page steps always return, and one settlement spelled out.\<close>

lemma settle_Inr: "\<exists>p'. settle P i a p = Inr p'"
proof -
  obtain u where "run_adapter (P i) (content (calls p ! i)) a (ui p) = Inr u"
    using run_adapter_Inr by blast
  then show ?thesis by (simp add: settle_def Let_def)
qed

lemma page_step_Inr: "\<exists>p'. page_step store P e p = Inr p'"
  by (cases e) (simp_all add: settle_Inr Let_def)

lemma page_run_Inr: "\<exists>p'. page_run store P es p = Inr p'"
proof (induction es arbitrary: p)
  case Nil
  show ?case by simp
next
  case (Cons e es)
  obtain p1 where "page_step store P e p = Inr p1"
    using page_step_Inr by blast
  then show ?case using Cons.IH [of p1] by simp
qed

lemma all_settled_mono: "all_settled xs \<Longrightarrow> set xs \<subseteq> set ys \<Longrightarrow> all_settled ys"
  by (auto simp: all_settled_def)

lemma all_settled_cong: "set xs = set ys \<Longrightarrow> all_settled xs = all_settled ys"
  by (simp add: all_settled_def)

text \<open>One settlement, spelled out.\<close>

lemma settle_new:
  assumes "i < length (calls p)" "a \<notin> set (settled (calls p ! i))"
  shows "\<exists>p'. settle P i a p = Inr p' \<and> length (calls p') = length (calls p) \<and>
           settled (calls p' ! i) = settled (calls p ! i) @ [a] \<and>
           (\<forall>j. j \<noteq> i \<longrightarrow> calls p' ! j = calls p ! j) \<and>
           (loading (ui p') \<longleftrightarrow> \<not> all_settled (settled (calls p ! i) @ [a]) \<and> loading (ui p)) \<and>
           (a \<noteq> Audius \<longrightarrow> tracks (ui p') = tracks (ui p)) \<and>
           (a \<noteq> YouTube \<longrightarrow> videos (ui p') = videos (ui p)) \<and>
           (a \<noteq> GoogleBooks \<longrightarrow> books (ui p') = books (ui p)) \<and>
           (\<exists>u. run_adapter (P i) (content (calls p ! i)) a (ui p) = Inr u \<and>
                tracks (ui p') = tracks u \<and> videos (ui p') = videos u \<and>
                books (ui p') = books u \<and> toasts (ui p') = toasts u)"
proof -
  obtain u where u: "run_adapter (P i) (content (calls p ! i)) a (ui p) = Inr u"
    using run_adapter_Inr by blast
  have "loading u = loading (ui p)"
    using run_adapter_loading [OF u] .
  moreover have "a \<noteq> Audius \<longrightarrow> tracks u = tracks (ui p)"
    using run_adapter_tracks [OF u] by blast
  moreover have "a \<noteq> YouTube \<longrightarrow> videos u = videos (ui p)"
    using run_adapter_videos [OF u] by blast
  moreover have "a \<noteq> GoogleBooks \<longrightarrow> books u = books (ui p)"
    using run_adapter_books [OF u] by blast
  ultimately show ?thesis
    using assms u by (simp add: settle_def Let_def)
qed

lemma settle_old:
  "\<not> (i < length (calls p) \<and> a \<notin> set (settled (calls p ! i))) \<Longrightarrow> settle P i a p = Inr p"
  unfolding settle_def by (simp only: if_False)

text \<open>A call whose adapters settle with no other event in between.\<close>

lemma settle_alone:
  "i < length (calls p) \<Longrightarrow>
   \<exists>p'. page_run store P (map (Settled i) as) p = Inr p' \<and>
        length (calls p') = length (calls p) \<and>
        set (settled (calls p' ! i)) = set (settled (calls p ! i)) \<union> set as \<and>
        (loading (ui p') \<longleftrightarrow>
           (if all_settled (settled (calls p' ! i)) \<and> \<not> all_settled (settled (calls p ! i))
            then False else loading (ui p)))"
proof (induction as arbitrary: p)
  case Nil
  then show ?case by simp
next
  case (Cons a as)
  show ?case
  proof (cases "a \<in> set (settled (calls p ! i))")
    case True
    then have "settle P i a p = Inr p"
      by (simp add: settle_old)
    moreover from Cons.IH [OF Cons.prems] obtain p' where
      "page_run store P (map (Settled i) as) p = Inr p'"
      "length (calls p') = length (calls p)"
      "set (settled (calls p' ! i)) = set (settled (calls p ! i)) \<union> set as"
      "loading (ui p') \<longleftrightarrow>
         (if all_settled (settled (calls p' ! i)) \<and> \<not> all_settled (settled (calls p ! i))
          then False else loading (ui p))"
      by blast
    ultimately show ?thesis using True by auto
  next
    case False
    from settle_new [OF Cons.prems False, of P] obtain p1 where p1:
      "settle P i a p = Inr p1" "length (calls p1) = length (calls p)"
      "settled (calls p1 ! i) = settled (calls p ! i) @ [a]"
      "loading (ui p1) \<longleftrightarrow> \<not> all_settled (settled (calls p ! i) @ [a]) \<and> loading (ui p)"
      by blast
    have "i < length (calls p1)" using p1(2) Cons.prems by simp
    from Cons.IH [OF this] obtain p' where p':
      "page_run store P (map (Settled i) as) p1 = Inr p'"
      "length (calls p') = length (calls p1)"
      "set (settled (calls p' ! i)) = set (settled (calls p1 ! i)) \<union> set as"
      "loading (ui p') \<longleftrightarrow>
         (if all_settled (settled (calls p' ! i)) \<and> \<not> all_settled (settled (calls p1 ! i))
          then False else loading (ui p1))"
      by blast
    have run: "page_run store P (map (Settled i) (a # as)) p = Inr p'"
      using p1(1) p'(1) by simp
    have sets: "set (settled (calls p' ! i)) = set (settled (calls p ! i)) \<union> set (a # as)"
      using p'(3) p1(3) by auto
    have sub1: "set (settled (calls p ! i)) \<subseteq> set (settled (calls p ! i) @ [a])"
      by auto
    have sub2: "set (settled (calls p ! i) @ [a]) \<subseteq> set (settled (calls p' ! i))"
      using sets by auto
    have notall: "\<not> all_settled (settled (calls p ! i))"
      using False by (cases a) (auto simp: all_settled_def)
    have "loading (ui p') \<longleftrightarrow>
         (if all_settled (settled (calls p' ! i)) \<and> \<not> all_settled (settled (calls p ! i))
          then False else loading (ui p))"
      using p'(4) p1(3,4) notall all_settled_mono [OF _ sub2] by auto
    then show ?thesis
      using run sets p'(2) p1(2) by (intro exI [of _ p']) simp
  qed
qed


lemma fetchUserMood_fields:
  "loading (fetchUserMood store u s) = loading s" "tracks (fetchUserMood store u s) = tracks s"
  "videos (fetchUserMood store u s) = videos s" "books (fetchUserMood store u s) = books s"
  by (simp_all add: fetchUserMood_def split: option.splits mood_rows.splits)

lemma loadRecommendations_fields:
  "loading (ui (loadRecommendations p))" "tracks (ui (loadRecommendations p)) = tracks (ui p)"
  "videos (ui (loadRecommendations p)) = videos (ui p)"
  "books (ui (loadRecommendations p)) = books (ui p)"
  "no_call_complete (loadRecommendations p) = no_call_complete p"
  "never_settled a (loadRecommendations p) = never_settled a p"
  by (simp_all add: loadRecommendations_def no_call_complete_def never_settled_def
      all_settled_def)

lemma ui_update_calls:
  "no_call_complete (p\<lparr>ui := x\<rparr>) = no_call_complete p"
  "never_settled a (p\<lparr>ui := x\<rparr>) = never_settled a p"
  by (simp_all add: no_call_complete_def never_settled_def)

text \<open>
  What one step keeps: \<open>loading\<close> as long as no call is complete, and a list as long as
  no adapter for it has settled.
\<close>

lemma settle_keeps:
  assumes "settle P i a p = Inr p'"
  shows "(no_call_complete p' \<longrightarrow> no_call_complete p \<and> loading (ui p') = loading (ui p)) \<and>
         (never_settled Audius p' \<longrightarrow> never_settled Audius p \<and> tracks (ui p') = tracks (ui p)) \<and>
         (never_settled YouTube p' \<longrightarrow> never_settled YouTube p \<and> videos (ui p') = videos (ui p)) \<and>
         (never_settled GoogleBooks p' \<longrightarrow>
            never_settled GoogleBooks p \<and> books (ui p') = books (ui p))"
proof (cases "i < length (calls p) \<and> a \<notin> set (settled (calls p ! i))")
  case False
  then have "p' = p" using assms settle_old [of i p a P] by simp
  then show ?thesis by simp
next
  case True
  then have i: "i < length (calls p)" and a: "a \<notin> set (settled (calls p ! i))"
    by simp_all
  from settle_new [OF i a, of P] assms have p':
    "length (calls p') = length (calls p)"
    "settled (calls p' ! i) = settled (calls p ! i) @ [a]"
    "\<forall>j. j \<noteq> i \<longrightarrow> calls p' ! j = calls p ! j"
    "loading (ui p') \<longleftrightarrow> \<not> all_settled (settled (calls p ! i) @ [a]) \<and> loading (ui p)"
    "a \<noteq> Audius \<longrightarrow> tracks (ui p') = tracks (ui p)"
    "a \<noteq> YouTube \<longrightarrow> videos (ui p') = videos (ui p)"
    "a \<noteq> GoogleBooks \<longrightarrow> books (ui p') = books (ui p)"
    by auto
  have grow: "\<And>j. j < length (calls p) \<Longrightarrow>
      set (settled (calls p ! j)) \<subseteq> set (settled (calls p' ! j))"
    using p'(2,3) by (metis set_append subset_refl sup_ge1)
  have complete: "no_call_complete p' \<longrightarrow> no_call_complete p \<and> loading (ui p') = loading (ui p)"
  proof
    assume n: "no_call_complete p'"
    then have all': "\<And>j. j < length (calls p) \<Longrightarrow> \<not> all_settled (settled (calls p' ! j))"
      using p'(1) by (simp add: no_call_complete_def list_all_length)
    have "\<And>j. j < length (calls p) \<Longrightarrow> \<not> all_settled (settled (calls p ! j))"
      using all' grow all_settled_mono by blast
    then have "no_call_complete p"
      by (simp add: no_call_complete_def list_all_length)
    moreover have "\<not> all_settled (settled (calls p ! i) @ [a])"
      using all' [OF i] p'(2) by simp
    then have "loading (ui p') = loading (ui p)"
      using p'(4) by simp
    ultimately show "no_call_complete p \<and> loading (ui p') = loading (ui p)" by simp
  qed
  have never: "never_settled b p' \<longrightarrow> never_settled b p \<and> a \<noteq> b" for b
  proof
    assume n: "never_settled b p'"
    then have all': "\<And>j. j < length (calls p) \<Longrightarrow> b \<notin> set (settled (calls p' ! j))"
      using p'(1) by (simp add: never_settled_def list_all_length)
    have "\<And>j. j < length (calls p) \<Longrightarrow> b \<notin> set (settled (calls p ! j))"
      using all' grow by blast
    then have "never_settled b p"
      by (simp add: never_settled_def list_all_length)
    moreover have "a \<noteq> b"
      using all' [OF i] p'(2) by auto
    ultimately show "never_settled b p \<and> a \<noteq> b" by simp
  qed
  show ?thesis
    using complete never [of Audius] never [of YouTube] never [of GoogleBooks] p'(5,6,7)
    by blast
qed

lemma page_step_keeps:
  assumes "page_step store P e p = Inr p'"
  shows "(no_call_complete p' \<longrightarrow> no_call_complete p \<and> (loading (ui p) \<longrightarrow> loading (ui p'))) \<and>
         (never_settled Audius p' \<longrightarrow> never_settled Audius p \<and> tracks (ui p') = tracks (ui p)) \<and>
         (never_settled YouTube p' \<longrightarrow> never_settled YouTube p \<and> videos (ui p') = videos (ui p)) \<and>
         (never_settled GoogleBooks p' \<longrightarrow>
            never_settled GoogleBooks p \<and> books (ui p') = books (ui p))"
proof (cases e)
  case Mount
  then show ?thesis
    using assms by (auto simp: loadRecommendations_fields split: if_splits)
next
  case (UserIs u)
  then show ?thesis
    using assms
    by (auto simp: loadRecommendations_fields fetchUserMood_fields ui_update_calls Let_def
        split: if_splits)
next
  case ClickRefresh
  then show ?thesis
    using assms by (auto simp: loadRecommendations_fields split: if_splits)
next
  case (Settled i a)
  then have "settle P i a p = Inr p'" using assms by simp
  from settle_keeps [OF this] show ?thesis by blast
qed

lemma page_run_keeps:
  assumes "page_run store P es p = Inr p'"
    and "no_call_complete p \<longrightarrow> loading (ui p)"
    and "never_settled Audius p \<longrightarrow> tracks (ui p) = []"
    and "never_settled YouTube p \<longrightarrow> videos (ui p) = []"
    and "never_settled GoogleBooks p \<longrightarrow> books (ui p) = []"
  shows "(no_call_complete p' \<longrightarrow> loading (ui p')) \<and>
         (never_settled Audius p' \<longrightarrow> tracks (ui p') = []) \<and>
         (never_settled YouTube p' \<longrightarrow> videos (ui p') = []) \<and>
         (never_settled GoogleBooks p' \<longrightarrow> books (ui p') = [])"
  using assms
proof (induction es arbitrary: p)
  case Nil
  then show ?case by simp
next
  case (Cons e es)
  obtain p1 where p1: "page_step store P e p = Inr p1"
    using page_step_Inr by blast
  then have run: "page_run store P es p1 = Inr p'"
    using Cons.prems(1) by simp
  from page_step_keeps [OF p1] Cons.prems(2-5)
  have "no_call_complete p1 \<longrightarrow> loading (ui p1)"
    "never_settled Audius p1 \<longrightarrow> tracks (ui p1) = []"
    "never_settled YouTube p1 \<longrightarrow> videos (ui p1) = []"
    "never_settled GoogleBooks p1 \<longrightarrow> books (ui p1) = []"
    by auto
  with Cons.IH [OF run] show ?case by blast
qed

text \<open>
  As the specification words claim C2, \<open>loading\<close> stays true from the start of every
  refresh until its three adapters have settled. \<open>loading\<close> is one cell for all calls:
  the first refresh starts at the first render with mood 5, the stored mood 8 arrives and
  starts a second one, and when the adapters of the first have settled its
  \<^verbatim>\<open>setLoading(false)\<close> clears the flag while no adapter of the second has settled.
\<close>

theorem overlapping_refresh_counterexample:
  "\<exists>p. page_run sample_store (\<lambda>i. sample_providers)
          [Mount, UserIs (Some ''u1''), Settled 0 YouTube, Settled 0 GoogleBooks,
           Settled 0 Audius] page_init = Inr p \<and>
       length (calls p) = 2 \<and> content (calls p ! 1) = high_bundle \<and>
       settled (calls p ! 1) = [] \<and> \<not> loading (ui p) \<and> \<not> shows_loading (ui p)"
  by (simp add: page_init_def init_state_def sample_store_def sample_providers_def
      mood_effect_def fetchUserMood_def loadRecommendations_def settle_def all_settled_def
      fetchAudiusTracks_cases fetchYouTubeVideos_cases fetchBooks_cases toast_def
      getMoodBasedContent_def high_bundle_def shows_loading_def Let_def nth_append)

text \<open>
  Claim C2, as the code has it. No sequence of page events leaves by an exception,
  whatever the providers answer. A call sets \<open>loading\<close> to true when it starts. A
  settlement runs the adapter on the shared state and changes \<open>loading\<close> only when it is
  the last of its call's three, and then to false. So for a call whose settlements follow
  its start with no other event in between, \<open>loading\<close> is true until all three adapters
  have settled and false from then on, in every order of settlement.
\<close>

theorem loadRecommendations_clears_loading:
  "(\<exists>p'. page_run store P es p = Inr p') \<and>
   loading (ui (loadRecommendations p)) \<and>
   (\<exists>p'. page_run store P (map (Settled (length (calls p))) as) (loadRecommendations p) = Inr p' \<and>
         set (settled (calls p' ! length (calls p))) = set as \<and>
         (loading (ui p') \<longleftrightarrow> \<not> all_settled as)) \<and>
   (i < length (calls p) \<and> a \<notin> set (settled (calls p ! i)) \<longrightarrow>
      (\<exists>p'. settle P i a p = Inr p' \<and>
            settled (calls p' ! i) = settled (calls p ! i) @ [a] \<and>
            (loading (ui p') \<longleftrightarrow> \<not> all_settled (settled (calls p' ! i)) \<and> loading (ui p)) \<and>
            (\<exists>u. run_adapter (P i) (content (calls p ! i)) a (ui p) = Inr u \<and>
                 tracks (ui p') = tracks u \<and> videos (ui p') = videos u \<and>
                 books (ui p') = books u \<and> toasts (ui p') = toasts u)))"
proof -
  let ?q = "loadRecommendations p" and ?n = "length (calls p)"
  have q: "?n < length (calls ?q)" "settled (calls ?q ! ?n) = []" "loading (ui ?q)"
    by (simp_all add: loadRecommendations_def)
  from settle_alone [OF q(1), of store P as] obtain p' where p':
    "page_run store P (map (Settled ?n) as) ?q = Inr p'"
    "set (settled (calls p' ! ?n)) = set (settled (calls ?q ! ?n)) \<union> set as"
    "loading (ui p') \<longleftrightarrow>
       (if all_settled (settled (calls p' ! ?n)) \<and> \<not> all_settled (settled (calls ?q ! ?n))
        then False else loading (ui ?q))"
    by blast
  have s: "set (settled (calls p' ! ?n)) = set as"
    using p'(2) q(2) by simp
  have "all_settled (settled (calls p' ! ?n)) = all_settled as"
    using s by (rule all_settled_cong)
  moreover have "\<not> all_settled (settled (calls ?q ! ?n))"
    using q(2) by (simp add: all_settled_def)
  ultimately have "loading (ui p') \<longleftrightarrow> \<not> all_settled as"
    using p'(3) q(3) by simp
  then have alone: "\<exists>p'. page_run store P (map (Settled ?n) as) ?q = Inr p' \<and>
         set (settled (calls p' ! ?n)) = set as \<and> (loading (ui p') \<longleftrightarrow> \<not> all_settled as)"
    using p'(1) s by blast
  have one: "i < length (calls p) \<and> a \<notin> set (settled (calls p ! i)) \<longrightarrow>
      (\<exists>p'. settle P i a p = Inr p' \<and>
            settled (calls p' ! i) = settled (calls p ! i) @ [a] \<and>
            (loading (ui p') \<longleftrightarrow> \<not> all_settled (settled (calls p' ! i)) \<and> loading (ui p)) \<and>
            (\<exists>u. run_adapter (P i) (content (calls p ! i)) a (ui p) = Inr u \<and>
                 tracks (ui p') = tracks u \<and> videos (ui p') = videos u \<and>
                 books (ui p') = books u \<and> toasts (ui p') = toasts u))"
  proof
    assume h: "i < length (calls p) \<and> a \<notin> set (settled (calls p ! i))"
    then have "i < length (calls p)" "a \<notin> set (settled (calls p ! i))" by simp_all
    from settle_new [OF this, of P] obtain p' where
      "settle P i a p = Inr p'" "settled (calls p' ! i) = settled (calls p ! i) @ [a]"
      "loading (ui p') \<longleftrightarrow> \<not> all_settled (settled (calls p ! i) @ [a]) \<and> loading (ui p)"
      "\<exists>u. run_adapter (P i) (content (calls p ! i)) a (ui p) = Inr u \<and>
           tracks (ui p') = tracks u \<and> videos (ui p') = videos u \<and>
           books (ui p') = books u \<and> toasts (ui p') = toasts u"
      by blast
    then show "\<exists>p'. settle P i a p = Inr p' \<and>
            settled (calls p' ! i) = settled (calls p ! i) @ [a] \<and>
            (loading (ui p') \<longleftrightarrow> \<not> all_settled (settled (calls p' ! i)) \<and> loading (ui p)) \<and>
            (\<exists>u. run_adapter (P i) (content (calls p ! i)) a (ui p) = Inr u \<and>
                 tracks (ui p') = tracks u \<and> videos (ui p') = videos u \<and>
                 books (ui p') = books u \<and> toasts (ui p') = toasts u)"
      by simp
  qed
  show ?thesis
    using page_run_Inr [of store P es p] q(3) alone one by blast
qed

theorem loadRecommendations_clears_loading_witness:
  "(\<exists>p'. page_run sample_store (\<lambda>i. sample_providers)
           (map (Settled 0) [YouTube, GoogleBooks, Audius]) (loadRecommendations page_init) = Inr p' \<and>
         \<not> loading (ui p')) \<and>
   (\<exists>p'. page_run sample_store (\<lambda>i. sample_providers)
           (map (Settled 0) [YouTube, GoogleBooks]) (loadRecommendations page_init) = Inr p' \<and>
         loading (ui p')) \<and>
   (0::nat) < length (calls (loadRecommendations page_init)) \<and>
   YouTube \<notin> set (settled (calls (loadRecommendations page_init) ! 0)) \<and>
   (\<exists>p'. settle (\<lambda>i. sample_providers) 0 YouTube (loadRecommendations page_init) = Inr p' \<and>
         settled (calls p' ! 0) = [YouTube] \<and> loading (ui p') \<and> videos (ui p') = [] \<and>
         toasts (ui p') = [podcast_toast])"
proof -
  have h: "(0::nat) < length (calls (loadRecommendations page_init)) \<and>
           YouTube \<notin> set (settled (calls (loadRecommendations page_init) ! 0))"
    by (simp add: loadRecommendations_def page_init_def)
  have run: "settle (\<lambda>i. sample_providers) 0 YouTube (loadRecommendations page_init) =
      Inr \<lparr>ui = init_state\<lparr>loading := True, toasts := [podcast_toast]\<rparr>,
           calls = [\<lparr>content = mid_bundle, settled = [YouTube]\<rparr>]\<rparr>"
    by (simp add: settle_def loadRecommendations_def page_init_def init_state_def
        sample_providers_def fetchYouTubeVideos_cases toast_def all_settled_def
        getMoodBasedContent_def mid_bundle_def Let_def)
  have full: "all_settled [YouTube, GoogleBooks, Audius]"
    and part: "\<not> all_settled [YouTube, GoogleBooks]"
    by (simp_all add: all_settled_def)
  note thm1 = loadRecommendations_clears_loading
    [of sample_store "\<lambda>i. sample_providers" "[]" page_init "[YouTube, GoogleBooks, Audius]"
        0 YouTube]
  note thm2 = loadRecommendations_clears_loading
    [of sample_store "\<lambda>i. sample_providers" "[]" "loadRecommendations page_init"
        "[YouTube, GoogleBooks]" 0 YouTube]
  note thm3 = loadRecommendations_clears_loading
    [of sample_store "\<lambda>i. sample_providers" "[]" page_init "[YouTube, GoogleBooks]" 0 YouTube]
  have a: "\<exists>p'. page_run sample_store (\<lambda>i. sample_providers)
           (map (Settled 0) [YouTube, GoogleBooks, Audius]) (loadRecommendations page_init) = Inr p' \<and>
         \<not> loading (ui p')"
    using thm1 full by (auto simp: page_init_def)
  have b: "\<exists>p'. page_run sample_store (\<lambda>i. sample_providers)
           (map (Settled 0) [YouTube, GoogleBooks]) (loadRecommendations page_init) = Inr p' \<and>
         loading (ui p')"
    using thm3 part by (auto simp: page_init_def)
  have c: "\<exists>p'. settle (\<lambda>i. sample_providers) 0 YouTube (loadRecommendations page_init) = Inr p' \<and>
         settled (calls p' ! 0) = [YouTube] \<and> loading (ui p') \<and> videos (ui p') = [] \<and>
         toasts (ui p') = [podcast_toast]"
    using thm2 h run by (simp add: init_state_def)
  show ?thesis using a b c h by blast
qed

text \<open>
  As the specification words claim C10, all three lists are empty as long as the first
  refresh has not settled. A list is written as soon as its own adapter settles: with the
  book adapter settled and the other two waiting, the first refresh is pending, \<open>loading\<close>
  is true and \<open>books\<close> holds a book.
\<close>

theorem section_filled_while_pending_counterexample:
  "\<exists>p. page_run sample_store (\<lambda>i. sample_providers) [Mount, Settled 0 GoogleBooks] page_init = Inr p \<and>
       length (calls p) = 1 \<and> settled (calls p ! 0) = [GoogleBooks] \<and> no_call_complete p \<and>
       loading (ui p) \<and> books (ui p) = [sample_book ''b1''] \<and> books (ui p) \<noteq> []"
  by (simp add: page_init_def init_state_def sample_providers_def
      mood_effect_def loadRecommendations_def settle_def all_settled_def
      fetchBooks_cases no_call_complete_def Let_def)

text \<open>
  Claim C10, as the code has it. The component starts with \<open>loading\<close> true and the three
  lists empty, so the page shows the loading bar and not the "no music" text. After any
  sequence of page events, overlapping refreshes included: as long as no call has had
  all three adapters settle, \<open>loading\<close> is true, the loading bar is shown and the "no
  music" text is not; and each list is empty as long as no adapter for its section has
  settled in any call.
\<close>

theorem initial_state_is_loading:
  "loading init_state \<and> tracks init_state = [] \<and> videos init_state = [] \<and>
   books init_state = [] \<and> shows_loading init_state \<and> \<not> shows_no_music init_state \<and>
   (\<exists>p. page_run store P es page_init = Inr p \<and>
        (no_call_complete p \<longrightarrow>
           loading (ui p) \<and> shows_loading (ui p) \<and> \<not> shows_no_music (ui p)) \<and>
        (never_settled Audius p \<longrightarrow> tracks (ui p) = []) \<and>
        (never_settled YouTube p \<longrightarrow> videos (ui p) = []) \<and>
        (never_settled GoogleBooks p \<longrightarrow> books (ui p) = []))"
proof -
  have init: "loading init_state" "tracks init_state = []" "videos init_state = []"
    "books init_state = []"
    by (simp_all add: init_state_def)
  obtain p where p: "page_run store P es page_init = Inr p"
    using page_run_Inr by blast
  have "(no_call_complete p \<longrightarrow> loading (ui p)) \<and>
        (never_settled Audius p \<longrightarrow> tracks (ui p) = []) \<and>
        (never_settled YouTube p \<longrightarrow> videos (ui p) = []) \<and>
        (never_settled GoogleBooks p \<longrightarrow> books (ui p) = [])"
    by (rule page_run_keeps [OF p]) (simp_all add: page_init_def init)
  then show ?thesis
    using p init by (auto simp: shows_loading_def shows_no_music_def)
qed

theorem initial_state_is_loading_witness:
  "(\<exists>p. page_run sample_store (\<lambda>i. sample_providers) [Mount] page_init = Inr p \<and>
        no_call_complete p \<and> never_settled Audius p \<and> never_settled YouTube p \<and>
        never_settled GoogleBooks p \<and> loading (ui p) \<and> shows_loading (ui p) \<and>
        \<not> shows_no_music (ui p) \<and> tracks (ui p) = [] \<and> videos (ui p) = [] \<and> books (ui p) = [])"
proof -
  have run: "page_run sample_store (\<lambda>i. sample_providers) [Mount] page_init =
      Inr \<lparr>ui = init_state, calls = [\<lparr>content = mid_bundle, settled = []\<rparr>]\<rparr>"
    by (simp add: page_init_def init_state_def mood_effect_def loadRecommendations_def
        getMoodBasedContent_def mid_bundle_def)
  have pre: "no_call_complete \<lparr>ui = init_state, calls = [\<lparr>content = mid_bundle, settled = []\<rparr>]\<rparr>"
    "never_settled a \<lparr>ui = init_state, calls = [\<lparr>content = mid_bundle, settled = []\<rparr>]\<rparr>" for a
    by (simp_all add: no_call_complete_def never_settled_def all_settled_def)
  from initial_state_is_loading [of sample_store "\<lambda>i. sample_providers" "[Mount]"] run pre
  show ?thesis by simp
qed

subsection \<open>Playback\<close>

lemma playback_step_playing:
  "playingTracks (playback_step e s) \<subseteq> insert (target e) (playingTracks s)"
  by (cases e) (auto simp: playTrack_def onPlay_def onPause_def Let_def)

lemma playback_run_playing:
  "playingTracks (playback_run es s) \<subseteq> playingTracks s \<union> target ` set es"
proof (induction es arbitrary: s)
  case Nil
  show ?case by simp
next
  case (Cons e es)
  have "playingTracks (playback_run es (playback_step e s))
          \<subseteq> playingTracks (playback_step e s) \<union> target ` set es"
    by (rule Cons.IH)
  then show ?case
    using playback_step_playing [of e s] by auto
qed

text \<open>
  As the specification words claim C5, at most one track is playing at any time. The
  set \<open>playingTracks\<close> has no such bound: two toggles on two tracks leave both playing.
\<close>

theorem two_tracks_playing_counterexample:
  "playingTracks (playback_run [TogglePlay ''A'', TogglePlay ''B''] init_state) = {''A'', ''B''} \<and>
   \<not> card (playingTracks (playback_run [TogglePlay ''A'', TogglePlay ''B''] init_state)) \<le> 1"
  by (simp add: playTrack_def init_state_def Let_def insert_commute)

text \<open>
  Claim C5, as the code has it. After any sequence of toggle, play and pause events
  from the initial state, every track in the playing state was named by one of the
  events, so there are at most as many playing tracks as events; and an event changes
  the playing state of no track but the one it names.
\<close>

theorem playback_events_are_local:
  "playingTracks (playback_run es init_state) \<subseteq> target ` set es \<and>
   card (playingTracks (playback_run es init_state)) \<le> length es \<and>
   (\<forall>t. t \<noteq> target e \<longrightarrow>
      (reports_playing (playback_step e s) t \<longleftrightarrow> reports_playing s t))"
proof -
  have sub: "playingTracks (playback_run es init_state) \<subseteq> target ` set es"
    using playback_run_playing [of es init_state] by (simp add: init_state_def)
  have "card (playingTracks (playback_run es init_state)) \<le> card (target ` set es)"
    using sub by (simp add: card_mono)
  also have "\<dots> \<le> card (set es)"
    by (simp add: card_image_le)
  also have "\<dots> \<le> length es"
    by (rule card_length)
  finally have bound: "card (playingTracks (playback_run es init_state)) \<le> length es" .
  have loc: "\<forall>t. t \<noteq> target e \<longrightarrow>
      (reports_playing (playback_step e s) t \<longleftrightarrow> reports_playing s t)"
    by (cases e) (auto simp: reports_playing_def playTrack_def onPlay_def onPause_def Let_def)
  show ?thesis using sub bound loc by blast
qed

theorem playback_events_are_local_witness:
  "''A'' \<noteq> target (TogglePlay ''B'') \<and>
   reports_playing (playback_step (TogglePlay ''B'') (playTrack ''A'' init_state)) ''A'' \<and>
   card (playingTracks (playback_run [TogglePlay ''A'', TogglePlay ''B''] init_state)) \<le> 2"
  using playback_events_are_local
    [of "[TogglePlay ''A'', TogglePlay ''B'']" "TogglePlay ''B''" "playTrack ''A'' init_state"]
  by (simp add: reports_playing_def playTrack_def init_state_def Let_def)

text \<open>
  As the specification words claim C6, two toggles on track A end in a paused state
  that is not the idle one, and a toggle on B stops A. In the page two toggles on A give
  back the initial state, and after a toggle on B track A still reports playing. The
  earlier \<^verbatim>\<open>playTrack\<close> also returns to its idle state on the second toggle.
\<close>

theorem toggle_twice_counterexample:
  "playTrack ''A'' (playTrack ''A'' init_state) = init_state \<and>
   reports_playing (playTrack ''B'' (playTrack ''A'' init_state)) ''A'' \<and>
   playTrack_single ''A'' (playTrack_single ''A'' single_idle) = single_idle"
  by (simp add: playTrack_def init_state_def Let_def reports_playing_def playTrack_single_def
      single_idle_def)

text \<open>
  Claim C6, as the code has it. From the initial (idle) state two toggles on track A
  give back the initial state; a toggle on another track B while A is playing leaves both
  B and A reporting a playing state. For the earlier \<^verbatim>\<open>playTrack\<close> with one current track:
  two toggles on A give back its idle state, and a toggle on B while A is playing makes B
  the playing track and A no longer reports playing.
\<close>

theorem toggle_twice_returns_to_idle:
  "playTrack a (playTrack a init_state) = init_state \<and>
   (a \<noteq> b \<longrightarrow>
      reports_playing (playTrack b (playTrack a init_state)) b \<and>
      reports_playing (playTrack b (playTrack a init_state)) a) \<and>
   playTrack_single a (playTrack_single a single_idle) = single_idle \<and>
   (a \<noteq> b \<longrightarrow>
      single_reports_playing (playTrack_single b (playTrack_single a single_idle)) b \<and>
      \<not> single_reports_playing (playTrack_single b (playTrack_single a single_idle)) a)"
  by (simp add: playTrack_def init_state_def Let_def reports_playing_def playTrack_single_def
      single_idle_def single_reports_playing_def)

theorem toggle_twice_returns_to_idle_witness:
  "''A'' \<noteq> ''B'' \<and>
   playingTracks (playTrack ''B'' (playTrack ''A'' init_state)) = {''A'', ''B''} \<and>
   currentTrack (playTrack_single ''B'' (playTrack_single ''A'' single_idle)) = Some ''B''"
  using toggle_twice_returns_to_idle [of "''A''" "''B''"]
  by (simp add: playTrack_def init_state_def Let_def playTrack_single_def single_idle_def
      insert_commute)

subsection \<open>Book detail selection\<close>

text \<open>
  Claim C9. The selection starts closed; a click on the card of book X and then on the
  card of book Y leaves Y selected, from any state; from the detail of Y open, the close
  button and a click on the overlay close it, and a click on the detail panel itself
  leaves it open. \<open>selectedBook\<close> holds at most one book, so two details are never open
  together.
\<close>

theorem selection_single_open:
  "selectedBook init_state = None \<and>
   selectedBook (click_step (BookCard y) (click_step (BookCard x) s)) = Some y \<and>
   selectedBook (click_step CloseButton (s\<lparr>selectedBook := Some y\<rparr>)) = None \<and>
   selectedBook (click_step ModalOverlay (s\<lparr>selectedBook := Some y\<rparr>)) = None \<and>
   selectedBook (click_step ModalContent (s\<lparr>selectedBook := Some y\<rparr>)) = Some y"
  by (simp add: init_state_def)

theorem selection_single_open_witness:
  "selectedBook (click_step (BookCard (sample_book ''Y''))
      (click_step (BookCard (sample_book ''X'')) init_state)) = Some (sample_book ''Y'') \<and>
   selectedBook (click_step ModalOverlay
      (click_step (BookCard (sample_book ''Y'')) init_state)) = None"
  using selection_single_open [of "sample_book ''Y''" "sample_book ''X''" init_state]
  by simp

end
